theory Spec2Isabelle
  imports Complex_Main "HOL-Library.AList"
begin

section \<open>Network: the bounded pool of loaders (src/src/network.ts)\<close>

text \<open>
  The class \<open>Network\<close> keeps two insertion-ordered JavaScript \<open>Map\<close>s keyed by URL,
  \<open>processes\<close> (in flight) and \<open>imageQueue\<close> (pending). A \<open>Map\<close> is an association
  list here: \<open>Map.set\<close> is \<open>AList.update\<close> (replace in place, or append at the end),
  \<open>Map.delete\<close> is \<open>AList.delete\<close>, \<open>Map.get\<close>/\<open>Map.has\<close> are \<open>map_of\<close>, and
  \<open>Map.size\<close> is \<open>length\<close>.

  The classes \<open>CacheImage\<close>, \<open>Loader\<close> and \<open>Logger\<close> are imported by network.ts but
  their files are not among the sources. What \<open>Network\<close> does to them is recorded as
  an effect in \<open>trace\<close>, in program order; what they do to \<open>Network\<close> (a loader event
  reaching the handlers that \<open>processImage\<close> attached) is an operation of its own.
\<close>

text \<open>The two fields of a \<open>CacheImage\<close> that \<open>Network\<close> reads.\<close>

record cacheImage =
  url :: string
  loaded :: bool

text \<open>A \<open>Loader\<close> object is identified by the order of its creation.\<close>

type_synonym loader = nat

text \<open>The events for which \<open>processImage\<close> attaches a handler to a loader.\<close>

datatype loaderEvent = Start | Progress | Abort | Error | Timeout | Load

text \<open>
  Calls that leave \<open>Network\<close>: \<open>this.emit("check-memory", memory)\<close> with the value of
  \<open>memory.overflow\<close> once the listeners have run, \<open>this.log.warn\<close>, the methods called
  on a loader, the methods called on an image (named by its URL), and
  \<open>this.emit("load", image)\<close>.
\<close>

datatype effect =
    EmitCheckMemory bool
  | LogWarn
  | LoaderLoad loader
  | LoaderAbort loader
  | LoaderRemoveAllListeners loader
  | ImageOnLoadStart string
  | ImageOnLoaderProgress string loader
  | ImageOnLoadError string
  | ImageAssignBlob string loader
  | EmitLoad string

text \<open>
  A JavaScript \<open>number\<close>: a finite value, one of the two infinities, or \<open>NaN\<close>. The
  finite values are rationals here, which include every finite double; the comparisons
  below are exact on them. \<open>jsLe\<close> is \<open><=\<close> and \<open>jsGe\<close> is \<open>>=\<close>: a comparison
  with \<open>NaN\<close> is false. \<open>mapSize\<close> is \<open>Map.size\<close>, a count, as a number.
\<close>

datatype jsNumber = Finite rat | Infinity | NegInfinity | NaN

fun jsLe :: "jsNumber \<Rightarrow> jsNumber \<Rightarrow> bool" where
  "jsLe NaN b = False"
| "jsLe a NaN = False"
| "jsLe NegInfinity b = True"
| "jsLe a Infinity = True"
| "jsLe (Finite a) (Finite b) = (a \<le> b)"
| "jsLe a b = False"

definition jsGe :: "jsNumber \<Rightarrow> jsNumber \<Rightarrow> bool" where
  "jsGe a b = jsLe b a"

definition mapSize :: "'a list \<Rightarrow> jsNumber" where
  "mapSize al = Finite (of_nat (length al))"

text \<open>
  The fields of \<open>Network\<close>, and three components of the surroundings: \<open>attached\<close>, the
  loaders whose listeners from \<open>processImage\<close> are still attached, each with the image its
  closures captured; \<open>created\<close>, the number of loaders created so far; and \<open>trace\<close>.
  \<open>maxProcesses\<close> is whatever number the constructor received. The listeners of
  \<open>check-memory\<close> and the methods of an image do not call back into the \<open>Network\<close>
  while one of its methods runs.
\<close>

record network =
  processes :: "(string \<times> (cacheImage \<times> loader)) list"
  imageQueue :: "(string \<times> cacheImage) list"
  maxProcesses :: jsNumber
  loadedCount :: nat
  canceledCount :: nat
  erroredCount :: nat
  attached :: "(loader \<times> cacheImage) list"
  created :: nat
  trace :: "effect list"

text \<open>\<open>constructor(loaders?: number)\<close>: \<open>this.maxProcesses = loaders ?? this.maxProcesses\<close>.\<close>

definition Network :: "jsNumber option \<Rightarrow> network" where
  "Network loaders =
     \<lparr> processes = [], imageQueue = [],
       maxProcesses = (case loaders of None \<Rightarrow> Finite 16 | Some l \<Rightarrow> l),
       loadedCount = 0, canceledCount = 0, erroredCount = 0,
       attached = [], created = 0, trace = [] \<rparr>"

text \<open>
  \<open>canLoad\<close>: \<open>memory.overflow\<close> starts false, the listeners of \<open>check-memory\<close> may set
  it, and the answer is its negation. The listeners are outside \<open>Network\<close>: their replies
  are a list \<open>rs\<close> given to each operation, one reply per question, and a question
  without a reply finds \<open>overflow\<close> as it was initialised, false.
\<close>

definition canLoad :: "bool list \<Rightarrow> network \<Rightarrow> bool \<times> bool list \<times> network" where
  "canLoad rs n =
     (let overflow = (case rs of [] \<Rightarrow> False | r # _ \<Rightarrow> r)
      in (\<not> overflow, tl rs, n\<lparr>trace := trace n @ [EmitCheckMemory overflow]\<rparr>))"

text \<open>
  \<open>processImage\<close>: a new loader, its six listeners, \<open>this.processes.set\<close>, and
  \<open>loader.load()\<close>. The events of the loader arrive later, as operations (\<open>fire\<close>).
\<close>

definition processImage :: "cacheImage \<Rightarrow> network \<Rightarrow> network" where
  "processImage img n =
     (let loader = created n
      in n\<lparr> created := Suc (created n),
            attached := attached n @ [(loader, img)],
            processes := AList.update (url img) (img, loader) (processes n),
            trace := trace n @ [LoaderLoad loader] \<rparr>)"

text \<open>
  The \<open>for ... of\<close> loop of \<open>update\<close> over \<open>this.imageQueue.entries()\<close>. The body deletes
  only the entry it is visiting and adds none, so the iterator visits the entries present
  at the start, in order; \<open>entries\<close> is the part not visited yet.
\<close>

fun update_loop :: "bool list \<Rightarrow> (string \<times> cacheImage) list \<Rightarrow> network \<Rightarrow> network" where
  "update_loop rs [] n = n"
| "update_loop rs ((u, img) # entries) n =
     (if jsGe (mapSize (processes n)) (maxProcesses n) then n
      else (case canLoad rs n of
              (ok, rs', n1) \<Rightarrow>
                if \<not> ok then n1\<lparr>trace := trace n1 @ [LogWarn]\<rparr>
                else let n2 = processImage img n1
                     in update_loop rs' entries
                          (n2\<lparr>imageQueue := AList.delete u (imageQueue n2)\<rparr>)))"

definition update :: "bool list \<Rightarrow> network \<Rightarrow> network" where
  "update rs n =
     (if jsGe (mapSize (processes n)) (maxProcesses n) then n
      else update_loop rs (imageQueue n) n)"

definition add :: "cacheImage \<Rightarrow> bool list \<Rightarrow> network \<Rightarrow> network" where
  "add img rs n =
     (if loaded img then n
      else update rs
             (if map_of (imageQueue n) (url img) = None
                 \<and> map_of (processes n) (url img) = None
              then n\<lparr>imageQueue := AList.update (url img) img (imageQueue n)\<rparr>
              else n))"

definition remove :: "cacheImage \<Rightarrow> bool list \<Rightarrow> network \<Rightarrow> network" where
  "remove img rs n =
     (let n1 = (case map_of (imageQueue n) (url img) of
                  Some queuedImage \<Rightarrow>
                    update rs (n\<lparr>imageQueue := AList.delete (url img) (imageQueue n)\<rparr>)
                | None \<Rightarrow> n)
      in (case map_of (processes n1) (url img) of
            Some (_, loader) \<Rightarrow> n1\<lparr>trace := trace n1 @ [LoaderAbort loader]\<rparr>
          | None \<Rightarrow> n1))"

text \<open>
  \<open>onDone\<close>, the closure of \<open>processImage\<close> over \<open>image\<close> and \<open>loader\<close>:
  \<open>loader.removeAllListeners()\<close>, \<open>this.processes.delete(image.url)\<close>, \<open>this.update()\<close>.
\<close>

definition onDone :: "cacheImage \<Rightarrow> loader \<Rightarrow> bool list \<Rightarrow> network \<Rightarrow> network" where
  "onDone img loader rs n =
     update rs
       (n\<lparr> attached := AList.delete loader (attached n),
           processes := AList.delete (url img) (processes n),
           trace := trace n @ [LoaderRemoveAllListeners loader] \<rparr>)"

text \<open>
  Modelled from the spec: the emitter of \<open>Loader\<close> (\<open>on\<close>, \<open>removeAllListeners\<close>),
  whose file is not among the sources. A loader emits an event: a loader without listeners
  (never created, or after \<open>removeAllListeners\<close>) runs no code of \<open>Network\<close>; otherwise
  the listener that \<open>processImage\<close> attached for that event runs, and the bodies of the
  listeners are those of network.ts. \<open>loader.load()\<close> and \<open>loader.abort()\<close> emit nothing
  before they return; the events they cause are later operations.
\<close>

definition fire :: "loader \<Rightarrow> loaderEvent \<Rightarrow> bool list \<Rightarrow> network \<Rightarrow> network" where
  "fire loader ev rs n =
     (case map_of (attached n) loader of
        None \<Rightarrow> n
      | Some img \<Rightarrow>
          (case ev of
             Start \<Rightarrow> n\<lparr>trace := trace n @ [ImageOnLoadStart (url img)]\<rparr>
           | Progress \<Rightarrow> n\<lparr>trace := trace n @ [ImageOnLoaderProgress (url img) loader]\<rparr>
           | Abort \<Rightarrow> onDone img loader rs n
           | Error \<Rightarrow>
               onDone img loader rs
                 (n\<lparr> erroredCount := erroredCount n + 1,
                     trace := trace n @ [ImageOnLoadError (url img)] \<rparr>)
           | Timeout \<Rightarrow> onDone img loader rs (n\<lparr>erroredCount := erroredCount n + 1\<rparr>)
           | Load \<Rightarrow>
               (let n1 = onDone img loader rs (n\<lparr>loadedCount := loadedCount n + 1\<rparr>)
                in n1\<lparr>trace := trace n1 @ [ImageAssignBlob (url img) loader,
                                           EmitLoad (url img)]\<rparr>)))"

text \<open>
  A sequence of Network operations: calls of the public methods and loader events, each
  with the replies its \<open>check-memory\<close> questions receive. The reachable states are the
  states \<open>run (Network loaders) ops\<close>.
\<close>

datatype networkOp =
    Add cacheImage "bool list"
  | Remove cacheImage "bool list"
  | Fire loader loaderEvent "bool list"

fun apply_op :: "network \<Rightarrow> networkOp \<Rightarrow> network" where
  "apply_op n (Add img rs) = add img rs n"
| "apply_op n (Remove img rs) = remove img rs n"
| "apply_op n (Fire loader ev rs) = fire loader ev rs n"

definition run :: "network \<Rightarrow> networkOp list \<Rightarrow> network" where
  "run n ops = foldl apply_op n ops"

text \<open>One iteration of the loop, with \<open>canLoad\<close> and \<open>processImage\<close> unfolded.\<close>

definition dispatched :: "string \<Rightarrow> cacheImage \<Rightarrow> network \<Rightarrow> network" where
  "dispatched u img n =
     n\<lparr> created := Suc (created n),
        attached := attached n @ [(created n, img)],
        processes := AList.update (url img) (img, created n) (processes n),
        trace := trace n @ [EmitCheckMemory False, LoaderLoad (created n)],
        imageQueue := AList.delete u (imageQueue n) \<rparr>"


text \<open>
  A trace keeps the overflow gate when every \<open>loader.load()\<close> in it comes directly after a
  \<open>check-memory\<close> question whose reply was "no overflow"; \<open>p\<close> is the effect before the
  list.
\<close>

fun guardedFrom :: "effect \<Rightarrow> effect list \<Rightarrow> bool" where
  "guardedFrom p [] = True"
| "guardedFrom p (e # t) =
     ((case e of LoaderLoad _ \<Rightarrow> p = EmitCheckMemory False | _ \<Rightarrow> True) \<and> guardedFrom e t)"

definition guarded :: "effect list \<Rightarrow> bool" where
  "guarded t = guardedFrom LogWarn t"

text \<open>
  The keys of the two maps: no URL occurs twice across \<open>imageQueue\<close> and \<open>processes\<close>,
  and every queue entry is stored under the URL of its image.
\<close>

definition keysOk :: "network \<Rightarrow> bool" where
  "keysOk n \<longleftrightarrow>
     distinct (map fst (imageQueue n) @ map fst (processes n))
     \<and> list_all (\<lambda>(u, img). u = url img) (imageQueue n)"

text \<open>
  The number of loaders that the guard \<open>this.processes.size >= this.maxProcesses\<close> lets
  through for a given \<open>maxProcesses\<close>: the least natural number that is at least the
  maximum when there is one, no bound for \<open>Infinity\<close> and \<open>NaN\<close>.
\<close>

fun loaderBound :: "jsNumber \<Rightarrow> nat option" where
  "loaderBound (Finite q) = Some (nat \<lceil>q\<rceil>)"
| "loaderBound NegInfinity = Some 0"
| "loaderBound Infinity = None"
| "loaderBound NaN = None"

text \<open>The effects a dispatch cycle can add to the trace.\<close>

fun dispatchEffect :: "effect \<Rightarrow> bool" where
  "dispatchEffect (EmitCheckMemory b) = True"
| "dispatchEffect LogWarn = True"
| "dispatchEffect (LoaderLoad l) = True"
| "dispatchEffect e = False"

section \<open>Img: one image entry (src/unnamed/part_003)\<close>

text \<open>
  \<open>Img extends Loader\<close>; the files of \<open>Loader\<close> ("@lib/loader"), of \<open>RenderRequest\<close>
  ("@lib/request") and of the event emitter under them are not among the sources. JavaScript
  numbers are integers here.
\<close>

type_synonym request = nat

type_synonym blob = nat

text \<open>\<open>Size\<close>, and the \<open>HTMLImageElement\<close> that \<open>getBytesVideo(this.element)\<close> passes as one.\<close>

record Size =
  width :: int
  height :: int

datatype elementHandler = OnBlobAssigned | OnBlobError

record element = Size +
  onload :: "elementHandler option"
  onerror :: "elementHandler option"
  src :: string

text \<open>The events that the code of \<open>Img\<close> emits, with their data, and their type strings.\<close>

datatype imgEvent =
    SizeEvent int int
  | ClearEvent
  | BlobErrorEvent
  | RenderRequestRendered request
  | RenderRequestAdded request
  | RenderRequestRemoved request

fun eventType :: "imgEvent \<Rightarrow> string" where
  "eventType (SizeEvent w h) = ''size''"
| "eventType ClearEvent = ''clear''"
| "eventType BlobErrorEvent = ''blob-error''"
| "eventType (RenderRequestRendered r) = ''render-request-rendered''"
| "eventType (RenderRequestAdded r) = ''render-request-added''"
| "eventType (RenderRequestRemoved r) = ''render-request-removed''"

text \<open>
  A listener is the private method \<open>#onLoadEnd\<close>, which the constructor registers, or a
  handler of a consumer, identified by a number.
\<close>

datatype listener = OnLoadEnd | Consumer nat

text \<open>
  The fields of \<open>Img\<close> (\<open>bytes\<close> and \<open>blob\<close> are inherited from \<open>Loader\<close>), the listeners
  of its emitter, and three components of the surroundings: \<open>subscribed\<close>, the requests on
  whose \<open>rendered\<close> event \<open>#onRendered\<close> is registered; \<open>objectURLs\<close>, the blob URLs
  that \<open>URL.createObjectURL\<close> has handed out and \<open>URL.revokeObjectURL\<close> has not released;
  and \<open>delivered\<close>, the events handed to consumers' handlers, in order.
\<close>

record Img =
  bytes :: int
  blob :: "blob option"
  element :: element
  renderRequests :: "request list"
  gotSize :: bool
  decoded :: bool
  bytesUncompressed :: int
  listeners :: "(string \<times> listener) list"
  subscribed :: "request list"
  objectURLs :: "string list"
  delivered :: "(nat \<times> imgEvent) list"

text \<open>
  Modelled from the spec: the event emitter that \<open>Img\<close> inherits through \<open>Loader\<close>
  (\<open>on\<close>, \<open>emit\<close>, \<open>removeAllListeners\<close>), which src does not contain. \<open>emit\<close> hands the
  event to the handlers registered for its type, in the order of registration.
\<close>

definition emit :: "imgEvent \<Rightarrow> Img \<Rightarrow> Img" where
  "emit ev s =
     s\<lparr>delivered := delivered s @
          concat (map (\<lambda>(t, l). case l of Consumer c \<Rightarrow> if t = eventType ev then [(c, ev)] else []
                                      | OnLoadEnd \<Rightarrow> [])
                      (listeners s))\<rparr>"

definition removeAllListeners :: "Img \<Rightarrow> Img" where
  "removeAllListeners s = s\<lparr>listeners := []\<rparr>"

text \<open>
  The constructor: \<open>new Image()\<close>, the field initialisers and
  \<open>this.on("loadend", this.#onLoadEnd)\<close>. Modelled from the spec: the fields \<open>blob\<close>
  and \<open>bytes\<close> of \<open>Loader\<close> ("the fetched bytes as a blob and the total byte count",
  known on success), absent and 0 in a new object.
\<close>

definition newImg :: Img where
  "newImg =
     \<lparr> bytes = 0, blob = None,
       element = \<lparr> width = 0, height = 0, onload = None, onerror = None, src = [] \<rparr>,
       renderRequests = [], gotSize = False, decoded = False, bytesUncompressed = 0,
       listeners = [(''loadend'', OnLoadEnd)],
       subscribed = [], objectURLs = [], delivered = [] \<rparr>"

text \<open>\<open>URL.revokeObjectURL(u)\<close> releases \<open>u\<close>; a string that is no live blob URL releases nothing.\<close>

definition revokeObjectURL :: "string \<Rightarrow> Img \<Rightarrow> Img" where
  "revokeObjectURL u s = s\<lparr>objectURLs := removeAll u (objectURLs s)\<rparr>"

definition unregisterRequest :: "request \<Rightarrow> Img \<Rightarrow> Img" where
  "unregisterRequest r s =
     emit (RenderRequestRemoved r)
       (s\<lparr> subscribed := remove1 r (subscribed s),
           renderRequests := removeAll r (renderRequests s) \<rparr>)"

definition registerRequest :: "request \<Rightarrow> Img \<Rightarrow> Img" where
  "registerRequest r s =
     emit (RenderRequestAdded r)
       (s\<lparr> renderRequests :=
             (if r \<in> set (renderRequests s) then renderRequests s else renderRequests s @ [r]),
           subscribed := subscribed s @ [r] \<rparr>)"

text \<open>
  \<open>clear\<close>, statement by statement. \<open>this.element.src = ""\<close> comes before
  \<open>URL.revokeObjectURL(this.element.src)\<close>, which therefore receives what the element
  holds after the assignment. The \<open>for ... of\<close> loop over the \<open>Set\<close> visits every
  request present at its start: the body deletes only the request it is visiting.
\<close>

definition clear :: "Img \<Rightarrow> Img" where
  "clear s =
     (let s1 = s\<lparr>element := (element s)\<lparr>onload := None, onerror := None, src := []\<rparr>\<rparr>;
          s2 = s1\<lparr>gotSize := False, bytesUncompressed := 0\<rparr>;
          s3 = revokeObjectURL (src (element s2)) s2;
          s4 = foldl (\<lambda>s r. unregisterRequest r s) s3 (renderRequests s3);
          s5 = emit ClearEvent s4
      in removeAllListeners s5)"

definition getBytesVideo :: "'a Size_scheme \<Rightarrow> int" where
  "getBytesVideo sz = width sz * height sz * 4"

definition getBytesRam :: "Img \<Rightarrow> int" where
  "getBytesRam s = bytes s + (if decoded s then bytesUncompressed s else 0)"

datatype imgError = NoBlobDataFound

text \<open>
  \<open>#onLoadEnd\<close>; \<open>u\<close> is the URL that \<open>URL.createObjectURL(this.blob)\<close> returns.
\<close>

definition onLoadEnd :: "string \<Rightarrow> Img \<Rightarrow> imgError + Img" where
  "onLoadEnd u s =
     (if blob s = None then Inl NoBlobDataFound
      else Inr (s\<lparr> element := (element s)\<lparr> onload := Some OnBlobAssigned,
                                            onerror := Some OnBlobError,
                                            src := u \<rparr>,
                    objectURLs := objectURLs s @ [u] \<rparr>))"

definition onBlobAssigned :: "Img \<Rightarrow> Img" where
  "onBlobAssigned s =
     (let s1 = s\<lparr>element := (element s)\<lparr>onload := None, onerror := None\<rparr>\<rparr>;
          s2 = s1\<lparr>gotSize := True\<rparr>;
          s3 = s2\<lparr>bytesUncompressed := getBytesVideo (element s2)\<rparr>
      in emit (SizeEvent (width (element s3)) (height (element s3))) s3)"

definition onBlobError :: "Img \<Rightarrow> Img" where
  "onBlobError s =
     emit BlobErrorEvent (s\<lparr>element := (element s)\<lparr>onload := None, onerror := None\<rparr>\<rparr>)"

definition onRendered :: "request \<Rightarrow> Img \<Rightarrow> Img" where
  "onRendered r s = emit (RenderRequestRendered r) (s\<lparr>decoded := True\<rparr>)"

text \<open>
  What can happen to an \<open>Img\<close>: a consumer registers a handler; the loader part stores the
  fetched blob and its byte count; \<open>loadend\<close> is emitted and \<open>#onLoadEnd\<close> runs if it is
  still registered (an exception leaves the object as it was); the element reports its
  natural size and calls \<open>onload\<close>, or calls \<open>onerror\<close>; a request emits \<open>rendered\<close> and
  \<open>#onRendered\<close> runs if it is subscribed there; and the three public methods.
\<close>

datatype imgOp =
    On string nat
  | LoaderDone blob int
  | LoadEnd string
  | ElementLoad int int
  | ElementError
  | Rendered request
  | RegisterRequest request
  | UnregisterRequest request
  | Clear

definition runHandler :: "elementHandler option \<Rightarrow> Img \<Rightarrow> Img" where
  "runHandler h s =
     (case h of None \<Rightarrow> s | Some OnBlobAssigned \<Rightarrow> onBlobAssigned s
      | Some OnBlobError \<Rightarrow> onBlobError s)"

fun imgStep :: "Img \<Rightarrow> imgOp \<Rightarrow> Img" where
  "imgStep s (On t c) = s\<lparr>listeners := listeners s @ [(t, Consumer c)]\<rparr>"
| "imgStep s (LoaderDone b k) = s\<lparr>blob := Some b, bytes := k\<rparr>"
| "imgStep s (LoadEnd u) =
     (if (''loadend'', OnLoadEnd) \<in> set (listeners s)
      then (case onLoadEnd u s of Inl _ \<Rightarrow> s | Inr s' \<Rightarrow> s')
      else s)"
| "imgStep s (ElementLoad w h) =
     (let s1 = s\<lparr>element := (element s)\<lparr>width := w, height := h\<rparr>\<rparr>
      in runHandler (onload (element s1)) s1)"
| "imgStep s ElementError = runHandler (onerror (element s)) s"
| "imgStep s (Rendered r) = (if r \<in> set (subscribed s) then onRendered r s else s)"
| "imgStep s (RegisterRequest r) = registerRequest r s"
| "imgStep s (UnregisterRequest r) = unregisterRequest r s"
| "imgStep s Clear = clear s"

definition imgRun :: "Img \<Rightarrow> imgOp list \<Rightarrow> Img" where
  "imgRun s ops = foldl imgStep s ops"

section \<open>Properties of Network\<close>

subsection \<open>The concurrency cap\<close>

lemma maxProcesses_update_loop:
  "maxProcesses (update_loop rs entries n) = maxProcesses n"
  by (induction rs entries n rule: update_loop.induct)
     (simp_all add: canLoad_def processImage_def Let_def)

lemma maxProcesses_update: "maxProcesses (update rs n) = maxProcesses n"
  by (simp add: update_def maxProcesses_update_loop)

lemma length_update_le: "length (AList.update k v al) \<le> Suc (length al)"
  by (induction al) simp_all

lemma update_loop_Cons:
  "update_loop rs ((u, img) # entries) n =
     (if jsGe (mapSize (processes n)) (maxProcesses n) then n
      else if rs \<noteq> [] \<and> hd rs then n\<lparr>trace := trace n @ [EmitCheckMemory True, LogWarn]\<rparr>
      else update_loop (tl rs) entries (dispatched u img n))"
  by (cases rs) (simp_all add: canLoad_def processImage_def dispatched_def Let_def)

lemma room_below_bound:
  assumes "\<not> jsGe (mapSize ps) m" "loaderBound m = Some b"
  shows "Suc (length ps) \<le> b"
proof (cases m)
  case (Finite q)
  with assms(1) have "of_nat (length ps) < q"
    by (simp add: jsGe_def mapSize_def)
  then have "int (length ps) < \<lceil>q\<rceil>"
    by (simp add: less_ceiling_iff)
  with assms(2) Finite show ?thesis by auto
qed (use assms in \<open>simp_all add: jsGe_def mapSize_def\<close>)

lemma cap_update_loop:
  "loaderBound (maxProcesses n) = Some b \<Longrightarrow> length (processes n) \<le> b \<Longrightarrow>
   length (processes (update_loop rs entries n)) \<le> b"
proof (induction entries arbitrary: rs n)
  case Nil
  then show ?case by simp
next
  case (Cons e entries)
  obtain u img where e: "e = (u, img)" by (cases e)
  show ?case
  proof (cases "\<not> jsGe (mapSize (processes n)) (maxProcesses n) \<and> \<not> (rs \<noteq> [] \<and> hd rs)")
    case True
    then have "Suc (length (processes n)) \<le> b"
      using Cons.prems(1) by (intro room_below_bound) simp_all
    moreover have "length (processes (dispatched u img n)) \<le> Suc (length (processes n))"
      by (simp add: dispatched_def length_update_le)
    ultimately have le: "length (processes (dispatched u img n)) \<le> b"
      by simp
    have mx: "loaderBound (maxProcesses (dispatched u img n)) = Some b"
      using Cons.prems(1) by (simp add: dispatched_def)
    from Cons.IH [OF mx le] True show ?thesis
      unfolding e update_loop_Cons by auto
  next
    case False
    with Cons.prems show ?thesis
      unfolding e update_loop_Cons by auto
  qed
qed

lemma cap_update:
  "loaderBound (maxProcesses n) = Some b \<Longrightarrow> length (processes n) \<le> b \<Longrightarrow>
   length (processes (update rs n)) \<le> b"
  by (simp add: update_def cap_update_loop)

lemma cap_add:
  "loaderBound (maxProcesses n) = Some b \<Longrightarrow> length (processes n) \<le> b \<Longrightarrow>
   length (processes (add img rs n)) \<le> b"
  unfolding add_def by (auto intro!: cap_update)

lemma cap_remove:
  assumes "loaderBound (maxProcesses n) = Some b" "length (processes n) \<le> b"
  shows "length (processes (remove img rs n)) \<le> b"
proof -
  define n1 where "n1 = (case map_of (imageQueue n) (url img) of
                  Some queuedImage \<Rightarrow>
                    update rs (n\<lparr>imageQueue := AList.delete (url img) (imageQueue n)\<rparr>)
                | None \<Rightarrow> n)"
  have "length (processes n1) \<le> b"
    unfolding n1_def using assms by (auto split: option.splits intro!: cap_update)
  then show ?thesis
    unfolding remove_def n1_def [symmetric] by (simp add: Let_def split: option.splits prod.splits)
qed

lemma cap_onDone:
  assumes "loaderBound (maxProcesses n) = Some b" "length (processes n) \<le> b"
  shows "length (processes (onDone img l rs n)) \<le> b"
  unfolding onDone_def using assms AList.length_delete_le [of "url img" "processes n"]
  by (intro cap_update) simp_all

lemma cap_fire:
  assumes "loaderBound (maxProcesses n) = Some b" "length (processes n) \<le> b"
  shows "length (processes (fire l ev rs n)) \<le> b"
proof (cases "map_of (attached n) l")
  case None
  with assms show ?thesis by (simp add: fire_def)
next
  case (Some img)
  show ?thesis
  proof (cases ev)
    case Load
    have "length (processes (onDone img l rs (n\<lparr>loadedCount := loadedCount n + 1\<rparr>))) \<le> b"
      by (rule cap_onDone) (use assms in simp_all)
    with Some Load show ?thesis by (simp add: fire_def Let_def)
  next
    case Error
    have "length (processes (onDone img l rs (n\<lparr> erroredCount := erroredCount n + 1,
                     trace := trace n @ [ImageOnLoadError (url img)] \<rparr>))) \<le> b"
      by (rule cap_onDone) (use assms in simp_all)
    with Some Error show ?thesis by (simp add: fire_def)
  next
    case Timeout
    have "length (processes (onDone img l rs (n\<lparr>erroredCount := erroredCount n + 1\<rparr>))) \<le> b"
      by (rule cap_onDone) (use assms in simp_all)
    with Some Timeout show ?thesis by (simp add: fire_def)
  next
    case Abort
    with Some cap_onDone [OF assms] show ?thesis by (simp add: fire_def)
  qed (use Some assms in \<open>simp_all add: fire_def\<close>)
qed

lemma maxProcesses_apply_op: "maxProcesses (apply_op n op) = maxProcesses n"
proof (cases op)
  case (Add img rs)
  then show ?thesis by (simp add: add_def maxProcesses_update)
next
  case (Remove img rs)
  then show ?thesis
    by (simp add: remove_def Let_def maxProcesses_update split: option.splits prod.splits)
next
  case (Fire l ev rs)
  then show ?thesis
    by (simp add: fire_def onDone_def Let_def maxProcesses_update
             split: option.splits loaderEvent.splits)
qed

lemma maxProcesses_run: "maxProcesses (run n ops) = maxProcesses n"
  unfolding run_def by (induction ops arbitrary: n) (simp_all add: maxProcesses_apply_op)

lemma cap_run:
  "loaderBound (maxProcesses n) = Some b \<Longrightarrow> length (processes n) \<le> b \<Longrightarrow>
   length (processes (run n ops)) \<le> b"
  unfolding run_def
proof (induction ops arbitrary: n)
  case Nil
  then show ?case by simp
next
  case (Cons op ops)
  have "length (processes (apply_op n op)) \<le> b"
    using Cons.prems by (cases op) (simp_all add: cap_add cap_remove cap_fire)
  moreover have "loaderBound (maxProcesses (apply_op n op)) = Some b"
    using Cons.prems(1) by (simp add: maxProcesses_apply_op)
  ultimately show ?case using Cons.IH by simp
qed

text \<open>
  The cap as the spec states it, \<open>processes.size <= maxProcesses\<close>, fails for a maximum
  that is no natural number: with \<open>new Network(1.5)\<close> the guard \<open>size >= 1.5\<close> lets a
  second loader through, and with \<open>new Network(-1)\<close> the empty map is already above
  the maximum.
\<close>

theorem processes_exceed_fractional_maxProcesses:
  "\<not> jsLe (mapSize (processes (run (Network (Some (Finite (3 / 2))))
            [Add \<lparr>url = ''a'', loaded = False\<rparr> [], Add \<lparr>url = ''b'', loaded = False\<rparr> []])))
          (maxProcesses (run (Network (Some (Finite (3 / 2))))
            [Add \<lparr>url = ''a'', loaded = False\<rparr> [], Add \<lparr>url = ''b'', loaded = False\<rparr> []]))
   \<and> \<not> jsLe (mapSize (processes (run (Network (Some (Finite (- 1)))) [])))
            (maxProcesses (run (Network (Some (Finite (- 1)))) []))"
  by code_simp

text \<open>
  Claim C1, as the code has it. After any sequence of Network operations (\<open>add\<close>,
  \<open>remove\<close>, loader events reaching the handlers of \<open>processImage\<close>), started from a new
  \<open>Network\<close>: when the configured maximum is a natural number \<open>k\<close>, or none was given
  (16), \<open>processes.size <= maxProcesses\<close>; for any maximum with a bound \<open>b\<close> (the least
  natural number at or above a finite maximum, 0 for \<open>-Infinity\<close>) the number of
  entries of \<open>processes\<close> is at most \<open>b\<close>; and \<open>maxProcesses\<close> is still the configured
  maximum.
\<close>

theorem processes_within_natural_maxProcesses:
  "(loaders = None \<or> loaders = Some (Finite (of_nat k)) \<longrightarrow>
      jsLe (mapSize (processes (run (Network loaders) ops)))
           (maxProcesses (run (Network loaders) ops)))
   \<and> (loaderBound (maxProcesses (run (Network loaders) ops)) = Some b \<longrightarrow>
        length (processes (run (Network loaders) ops)) \<le> b)
   \<and> maxProcesses (run (Network loaders) ops)
       = (case loaders of None \<Rightarrow> Finite 16 | Some l \<Rightarrow> l)"
proof (intro conjI impI)
  show mx: "maxProcesses (run (Network loaders) ops)
       = (case loaders of None \<Rightarrow> Finite 16 | Some l \<Rightarrow> l)"
    by (simp add: maxProcesses_run Network_def)
  show "length (processes (run (Network loaders) ops)) \<le> b"
    if "loaderBound (maxProcesses (run (Network loaders) ops)) = Some b"
  proof (rule cap_run)
    from that show "loaderBound (maxProcesses (Network loaders)) = Some b"
      by (simp add: maxProcesses_run)
    show "length (processes (Network loaders)) \<le> b"
      by (simp add: Network_def)
  qed
  show "jsLe (mapSize (processes (run (Network loaders) ops)))
           (maxProcesses (run (Network loaders) ops))"
    if "loaders = None \<or> loaders = Some (Finite (of_nat k))"
  proof -
    from that obtain j :: nat where j: "maxProcesses (Network loaders) = Finite (of_nat j)"
      by (auto simp: Network_def intro: that [of 16])
    then have "loaderBound (maxProcesses (Network loaders)) = Some j"
      by simp
    then have "length (processes (run (Network loaders) ops)) \<le> j"
      by (rule cap_run) (simp add: Network_def)
    with j show ?thesis
      by (simp add: maxProcesses_run mapSize_def)
  qed
qed

text \<open>
  Three images on a pool of two loaders: two are in flight, the cap is reached. Two
  images on a pool of 1.5 loaders: at most two are in flight.
\<close>

theorem processes_within_natural_maxProcesses_witness:
  "Some (Finite 2) = Some (Finite (of_nat 2))
   \<and> length (processes (run (Network (Some (Finite 2)))
      [Add \<lparr>url = ''a'', loaded = False\<rparr> [], Add \<lparr>url = ''b'', loaded = False\<rparr> [],
       Add \<lparr>url = ''c'', loaded = False\<rparr> []])) = 2
   \<and> jsLe (mapSize (processes (run (Network (Some (Finite 2)))
      [Add \<lparr>url = ''a'', loaded = False\<rparr> [], Add \<lparr>url = ''b'', loaded = False\<rparr> [],
       Add \<lparr>url = ''c'', loaded = False\<rparr> []])))
       (maxProcesses (run (Network (Some (Finite 2)))
      [Add \<lparr>url = ''a'', loaded = False\<rparr> [], Add \<lparr>url = ''b'', loaded = False\<rparr> [],
       Add \<lparr>url = ''c'', loaded = False\<rparr> []]))
   \<and> loaderBound (maxProcesses (run (Network (Some (Finite (3 / 2))))
      [Add \<lparr>url = ''a'', loaded = False\<rparr> [], Add \<lparr>url = ''b'', loaded = False\<rparr> [],
       Add \<lparr>url = ''c'', loaded = False\<rparr> []])) = Some 2
   \<and> length (processes (run (Network (Some (Finite (3 / 2))))
      [Add \<lparr>url = ''a'', loaded = False\<rparr> [], Add \<lparr>url = ''b'', loaded = False\<rparr> [],
       Add \<lparr>url = ''c'', loaded = False\<rparr> []])) \<le> 2"
proof -
  have a: "length (processes (run (Network (Some (Finite 2)))
      [Add \<lparr>url = ''a'', loaded = False\<rparr> [], Add \<lparr>url = ''b'', loaded = False\<rparr> [],
       Add \<lparr>url = ''c'', loaded = False\<rparr> []])) = 2"
    by code_simp
  have b: "loaderBound (maxProcesses (run (Network (Some (Finite (3 / 2))))
      [Add \<lparr>url = ''a'', loaded = False\<rparr> [], Add \<lparr>url = ''b'', loaded = False\<rparr> [],
       Add \<lparr>url = ''c'', loaded = False\<rparr> []])) = Some 2"
    by code_simp
  show ?thesis
    using processes_within_natural_maxProcesses [of "Some (Finite 2)" 2
      "[Add \<lparr>url = ''a'', loaded = False\<rparr> [], Add \<lparr>url = ''b'', loaded = False\<rparr> [],
       Add \<lparr>url = ''c'', loaded = False\<rparr> []]" 2]
      processes_within_natural_maxProcesses [of "Some (Finite (3 / 2))" 0
      "[Add \<lparr>url = ''a'', loaded = False\<rparr> [], Add \<lparr>url = ''b'', loaded = False\<rparr> [],
       Add \<lparr>url = ''c'', loaded = False\<rparr> []]" 2]
      a b
    by (simp add: mapSize_def)
qed

subsection \<open>Deduplication by URL\<close>

lemma update_append:
  "k \<notin> fst ` set al \<Longrightarrow> AList.update k v al = al @ [(k, v)]"
  by (induction al) auto

lemma map_of_None_keys: "map_of al k = None \<longleftrightarrow> k \<notin> fst ` set al"
  by (simp add: map_of_eq_None_iff)

lemma set_delete: "set (AList.delete k al) = {p \<in> set al. fst p \<noteq> k}"
  by (auto simp: AList.delete_eq)

lemma keysOk_dispatched:
  assumes ok: "keysOk n" and mem: "(u, img) \<in> set (imageQueue n)"
  shows "keysOk (dispatched u img n)"
proof -
  from ok mem have u: "u = url img"
    by (auto simp: keysOk_def list_all_iff)
  from ok have d: "distinct (map fst (imageQueue n))" "distinct (map fst (processes n))"
    and dj: "set (map fst (imageQueue n)) \<inter> set (map fst (processes n)) = {}"
    by (simp_all add: keysOk_def)
  from mem have "u \<in> set (map fst (imageQueue n))" by force
  with dj have notin: "u \<notin> fst ` set (processes n)" by auto
  have p: "processes (dispatched u img n) = processes n @ [(u, (img, created n))]"
    using notin by (simp add: dispatched_def u [symmetric] update_append)
  have q: "map fst (imageQueue (dispatched u img n)) = removeAll u (map fst (imageQueue n))"
    by (simp add: dispatched_def AList.delete_keys)
  have "distinct (map fst (imageQueue (dispatched u img n)) @ map fst (processes (dispatched u img n)))"
    unfolding p q using d dj notin by (auto simp: distinct_removeAll)
  moreover have "list_all (\<lambda>(u, img). u = url img) (imageQueue (dispatched u img n))"
    using ok by (auto simp: keysOk_def list_all_iff dispatched_def set_delete)
  ultimately show ?thesis by (simp add: keysOk_def)
qed

lemma keysOk_trace [simp]: "keysOk (n\<lparr>trace := t\<rparr>) = keysOk n"
  by (simp add: keysOk_def)

lemma keysOk_update_loop:
  "keysOk n \<Longrightarrow> set entries \<subseteq> set (imageQueue n) \<Longrightarrow> distinct (map fst entries) \<Longrightarrow>
   keysOk (update_loop rs entries n)"
proof (induction entries arbitrary: rs n)
  case Nil
  then show ?case by simp
next
  case (Cons e entries)
  obtain u img where e: "e = (u, img)" by (cases e)
  from Cons.prems e have mem: "(u, img) \<in> set (imageQueue n)" by simp
  have ok': "keysOk (dispatched u img n)"
    by (rule keysOk_dispatched [OF Cons.prems(1) mem])
  have sub: "set entries \<subseteq> set (imageQueue (dispatched u img n))"
    using Cons.prems(2,3) e by (auto simp: dispatched_def set_delete)
  have "keysOk (update_loop (tl rs) entries (dispatched u img n))"
    by (rule Cons.IH [OF ok' sub]) (use Cons.prems(3) in simp)
  with Cons.prems(1) show ?case
    unfolding e update_loop_Cons by simp
qed

lemma keysOk_update:
  assumes "keysOk n"
  shows "keysOk (update rs n)"
proof -
  from assms have "distinct (map fst (imageQueue n))" by (simp add: keysOk_def)
  with assms have "keysOk (update_loop rs (imageQueue n) n)"
    by (intro keysOk_update_loop) simp_all
  with assms show ?thesis by (simp add: update_def)
qed

lemma keysOk_enqueue:
  assumes "keysOk n" "map_of (imageQueue n) (url img) = None"
    "map_of (processes n) (url img) = None"
  shows "keysOk (n\<lparr>imageQueue := AList.update (url img) img (imageQueue n)\<rparr>)"
  using assms by (auto simp: keysOk_def map_of_None_keys update_append)

lemma keysOk_dequeue:
  "keysOk n \<Longrightarrow> keysOk (n\<lparr>imageQueue := AList.delete k (imageQueue n)\<rparr>)"
  by (auto simp: keysOk_def AList.delete_keys distinct_removeAll list_all_iff set_delete)

lemma keysOk_process_delete:
  "keysOk n \<Longrightarrow> keysOk (n\<lparr>processes := AList.delete k (processes n)\<rparr>)"
  by (auto simp: keysOk_def AList.delete_keys distinct_removeAll)

lemma keysOk_add: "keysOk n \<Longrightarrow> keysOk (add img rs n)"
  unfolding add_def by (auto intro!: keysOk_update keysOk_enqueue)

lemma keysOk_remove: "keysOk n \<Longrightarrow> keysOk (remove img rs n)"
  unfolding remove_def Let_def
  by (auto split: option.splits prod.splits intro!: keysOk_update keysOk_dequeue)

lemma keysOk_fields [simp]:
  "keysOk (n\<lparr>attached := a\<rparr>) = keysOk n"
  "keysOk (n\<lparr>erroredCount := c\<rparr>) = keysOk n"
  "keysOk (n\<lparr>loadedCount := c\<rparr>) = keysOk n"
  by (simp_all add: keysOk_def)

lemma keysOk_onDone: "keysOk n \<Longrightarrow> keysOk (onDone img l rs n)"
  unfolding onDone_def
  by (rule keysOk_update) (use keysOk_process_delete [of n "url img"] in \<open>simp add: keysOk_def\<close>)

lemma keysOk_fire: "keysOk n \<Longrightarrow> keysOk (fire l ev rs n)"
  unfolding fire_def Let_def
  by (auto split: option.splits loaderEvent.splits intro!: keysOk_onDone)

lemma keysOk_run: "keysOk n \<Longrightarrow> keysOk (run n ops)"
  unfolding run_def
proof (induction ops arbitrary: n)
  case Nil
  then show ?case by simp
next
  case (Cons op ops)
  have "keysOk (apply_op n op)"
    using Cons.prems by (cases op) (simp_all add: keysOk_add keysOk_remove keysOk_fire)
  from Cons.IH [OF this] show ?case by simp
qed

text \<open>
  Claim C3. \<open>add(image)\<close> with \<open>image.loaded\<close> returns the Network unchanged. Otherwise
  it appends the image to the pending queue unless its URL is already a key of the queue or
  of the in-flight map, and then runs a dispatch cycle (\<open>update\<close>). In every state
  reachable from a new Network each URL occurs at most once across queue and in-flight
  map.
\<close>

theorem add_enqueues_once_per_url:
  "(loaded img \<longrightarrow> add img rs n = n)
   \<and> (\<not> loaded img \<longrightarrow>
        add img rs n =
          update rs
            (if url img \<in> fst ` set (imageQueue n) \<or> url img \<in> fst ` set (processes n)
             then n else n\<lparr>imageQueue := imageQueue n @ [(url img, img)]\<rparr>))
   \<and> distinct (map fst (imageQueue (run (Network loaders) ops))
               @ map fst (processes (run (Network loaders) ops)))"
proof (intro conjI impI)
  assume "loaded img"
  then show "add img rs n = n" by (simp add: add_def)
next
  assume "\<not> loaded img"
  then show "add img rs n =
          update rs
            (if url img \<in> fst ` set (imageQueue n) \<or> url img \<in> fst ` set (processes n)
             then n else n\<lparr>imageQueue := imageQueue n @ [(url img, img)]\<rparr>)"
    by (auto simp: add_def map_of_None_keys update_append)
next
  have "keysOk (Network loaders)" by (simp add: keysOk_def Network_def)
  then have "keysOk (run (Network loaders) ops)" by (rule keysOk_run)
  then show "distinct (map fst (imageQueue (run (Network loaders) ops))
               @ map fst (processes (run (Network loaders) ops)))"
    by (simp add: keysOk_def)
qed


text \<open>
  A loaded image changes nothing; a second image is queued behind a busy loader; adding
  the same two URLs again leaves one entry each.
\<close>

theorem add_enqueues_once_per_url_witness:
  "loaded \<lparr>url = ''a'', loaded = True\<rparr>
   \<and> add \<lparr>url = ''a'', loaded = True\<rparr> [] (Network (Some (Finite 1))) = Network (Some (Finite 1))
   \<and> \<not> loaded \<lparr>url = ''b'', loaded = False\<rparr>
   \<and> imageQueue (add \<lparr>url = ''b'', loaded = False\<rparr> []
        (run (Network (Some (Finite 1))) [Add \<lparr>url = ''a'', loaded = False\<rparr> []]))
       = [(''b'', \<lparr>url = ''b'', loaded = False\<rparr>)]
   \<and> distinct
        (map fst (imageQueue (run (Network (Some (Finite 1)))
           [Add \<lparr>url = ''a'', loaded = False\<rparr> [], Add \<lparr>url = ''b'', loaded = False\<rparr> [],
            Add \<lparr>url = ''a'', loaded = False\<rparr> [], Add \<lparr>url = ''b'', loaded = False\<rparr> []]))
         @ map fst (processes (run (Network (Some (Finite 1)))
           [Add \<lparr>url = ''a'', loaded = False\<rparr> [], Add \<lparr>url = ''b'', loaded = False\<rparr> [],
            Add \<lparr>url = ''a'', loaded = False\<rparr> [], Add \<lparr>url = ''b'', loaded = False\<rparr> []])))"
proof -
  have q: "imageQueue (add \<lparr>url = ''b'', loaded = False\<rparr> []
        (run (Network (Some (Finite 1))) [Add \<lparr>url = ''a'', loaded = False\<rparr> []]))
       = [(''b'', \<lparr>url = ''b'', loaded = False\<rparr>)]"
    by code_simp
  show ?thesis
    using add_enqueues_once_per_url [of "\<lparr>url = ''a'', loaded = True\<rparr>" "[]" "Network (Some (Finite 1))"
        "Some (Finite 1)"
        "[Add \<lparr>url = ''a'', loaded = False\<rparr> [], Add \<lparr>url = ''b'', loaded = False\<rparr> [],
          Add \<lparr>url = ''a'', loaded = False\<rparr> [], Add \<lparr>url = ''b'', loaded = False\<rparr> []]"]
      q
    by simp
qed

subsection \<open>The overflow gate\<close>

lemma guarded_snoc:
  "guardedFrom p (t @ [e]) =
     (guardedFrom p t \<and> (case e of LoaderLoad _ \<Rightarrow> last (p # t) = EmitCheckMemory False | _ \<Rightarrow> True))"
  by (induction t arbitrary: p) (auto split: effect.splits)

lemma guarded_dispatch:
  "guarded (t @ [EmitCheckMemory False, LoaderLoad l]) = guarded t"
proof -
  have "t @ [EmitCheckMemory False, LoaderLoad l] = (t @ [EmitCheckMemory False]) @ [LoaderLoad l]"
    by simp
  then show ?thesis
    unfolding guarded_def by (simp only: guarded_snoc) simp
qed

lemma guarded_other:
  "\<forall>l. e \<noteq> LoaderLoad l \<Longrightarrow> guarded (t @ [e]) = guarded t"
  unfolding guarded_def guarded_snoc by (cases e) simp_all

lemma guarded_other2:
  assumes "\<forall>l. e1 \<noteq> LoaderLoad l" "\<forall>l. e2 \<noteq> LoaderLoad l"
  shows "guarded (t @ [e1, e2]) = guarded t"
proof -
  have "guarded ((t @ [e1]) @ [e2]) = guarded (t @ [e1])"
    by (rule guarded_other) fact
  also have "\<dots> = guarded t"
    by (rule guarded_other) fact
  finally show ?thesis by simp
qed

lemma guarded_update_loop:
  "guarded (trace n) \<Longrightarrow> guarded (trace (update_loop rs entries n))"
proof (induction entries arbitrary: rs n)
  case Nil
  then show ?case by simp
next
  case (Cons e entries)
  obtain u img where e: "e = (u, img)" by (cases e)
  have "guarded (trace (dispatched u img n))"
    using Cons.prems by (simp add: dispatched_def guarded_dispatch)
  from Cons.IH [OF this] have
    a: "guarded (trace (update_loop (tl rs) entries (dispatched u img n)))" .
  have b: "guarded (trace n @ [EmitCheckMemory True, LogWarn])"
    using Cons.prems by (simp add: guarded_other2)
  from a b Cons.prems show ?case
    unfolding e update_loop_Cons by simp
qed

lemma guarded_update: "guarded (trace n) \<Longrightarrow> guarded (trace (update rs n))"
  by (simp add: update_def guarded_update_loop)

lemma guarded_add: "guarded (trace n) \<Longrightarrow> guarded (trace (add img rs n))"
  unfolding add_def by (auto intro!: guarded_update)

lemma guarded_remove: "guarded (trace n) \<Longrightarrow> guarded (trace (remove img rs n))"
  unfolding remove_def Let_def
  by (auto split: option.splits prod.splits simp: guarded_other intro!: guarded_update)

lemma guarded_onDone: "guarded (trace n) \<Longrightarrow> guarded (trace (onDone img l rs n))"
  unfolding onDone_def by (rule guarded_update) (simp add: guarded_other)

lemma guarded_fire:
  assumes "guarded (trace n)"
  shows "guarded (trace (fire l ev rs n))"
proof (cases "map_of (attached n) l")
  case None
  with assms show ?thesis by (simp add: fire_def)
next
  case (Some img)
  show ?thesis
  proof (cases ev)
    case Load
    have g: "guarded (trace (onDone img l rs (n\<lparr>loadedCount := loadedCount n + 1\<rparr>)))"
      by (rule guarded_onDone) (use assms in simp)
    have "guarded (trace (onDone img l rs (n\<lparr>loadedCount := loadedCount n + 1\<rparr>))
             @ [ImageAssignBlob (url img) l, EmitLoad (url img)])"
      using g by (simp add: guarded_other2)
    with Some Load show ?thesis by (simp add: fire_def Let_def)
  next
    case Error
    have "guarded (trace (onDone img l rs (n\<lparr> erroredCount := erroredCount n + 1,
                     trace := trace n @ [ImageOnLoadError (url img)] \<rparr>)))"
      by (rule guarded_onDone) (use assms in \<open>simp add: guarded_other\<close>)
    with Some Error show ?thesis by (simp add: fire_def)
  next
    case Timeout
    have "guarded (trace (onDone img l rs (n\<lparr>erroredCount := erroredCount n + 1\<rparr>)))"
      by (rule guarded_onDone) (use assms in simp)
    with Some Timeout show ?thesis by (simp add: fire_def)
  next
    case Abort
    with Some guarded_onDone [OF assms] show ?thesis by (simp add: fire_def)
  qed (use Some assms in \<open>simp_all add: fire_def guarded_other\<close>)
qed

lemma guarded_run: "guarded (trace n) \<Longrightarrow> guarded (trace (run n ops))"
  unfolding run_def
proof (induction ops arbitrary: n)
  case Nil
  then show ?case by simp
next
  case (Cons op ops)
  have "guarded (trace (apply_op n op))"
    using Cons.prems by (cases op) (simp_all add: guarded_add guarded_remove guarded_fire)
  from Cons.IH [OF this] show ?case by simp
qed

text \<open>
  Claim C4. In an iteration of the dispatch loop that the guard
  \<open>this.processes.size >= this.maxProcesses\<close> lets pass, a
  \<open>check-memory\<close> reply that reports overflow makes the Network warn and stop: no loader
  is created, and \<open>processes\<close> and \<open>imageQueue\<close> stay as they are. In every trace
  reachable from a new Network each \<open>loader.load()\<close> comes directly after a
  \<open>check-memory\<close> question answered "no overflow".
\<close>

theorem no_loader_started_on_overflow:
  "(\<not> jsGe (mapSize (processes n)) (maxProcesses n) \<longrightarrow>
      update_loop (True # rs) ((u, img) # entries) n
        = n\<lparr>trace := trace n @ [EmitCheckMemory True, LogWarn]\<rparr>)
   \<and> (\<not> jsGe (mapSize (processes n)) (maxProcesses n) \<and> imageQueue n \<noteq> [] \<longrightarrow>
      update (True # rs) n = n\<lparr>trace := trace n @ [EmitCheckMemory True, LogWarn]\<rparr>)
   \<and> guarded (trace (run (Network loaders) ops))"
proof (intro conjI impI)
  assume "\<not> jsGe (mapSize (processes n)) (maxProcesses n)"
  then show "update_loop (True # rs) ((u, img) # entries) n
        = n\<lparr>trace := trace n @ [EmitCheckMemory True, LogWarn]\<rparr>"
    unfolding update_loop_Cons by simp
next
  assume a: "\<not> jsGe (mapSize (processes n)) (maxProcesses n) \<and> imageQueue n \<noteq> []"
  then obtain u' img' entries' where q: "imageQueue n = (u', img') # entries'"
    by (cases "imageQueue n") auto
  from a show "update (True # rs) n = n\<lparr>trace := trace n @ [EmitCheckMemory True, LogWarn]\<rparr>"
    unfolding update_def q update_loop_Cons by simp
next
  have "guarded (trace (Network loaders))" by (simp add: Network_def guarded_def)
  then show "guarded (trace (run (Network loaders) ops))" by (rule guarded_run)
qed


text \<open>
  Overflow on the first question leaves \<open>a\<close> queued; later cycles start a loader only
  after a reply without overflow.
\<close>

theorem no_loader_started_on_overflow_witness:
  "\<not> jsGe (mapSize (processes (run (Network (Some (Finite 2))) [Add \<lparr>url = ''a'', loaded = False\<rparr> [True]])))
       (maxProcesses (run (Network (Some (Finite 2))) [Add \<lparr>url = ''a'', loaded = False\<rparr> [True]]))
   \<and> imageQueue (run (Network (Some (Finite 2))) [Add \<lparr>url = ''a'', loaded = False\<rparr> [True]])
       = [(''a'', \<lparr>url = ''a'', loaded = False\<rparr>)]
   \<and> update [True] (run (Network (Some (Finite 2))) [Add \<lparr>url = ''a'', loaded = False\<rparr> [True]])
       = (run (Network (Some (Finite 2))) [Add \<lparr>url = ''a'', loaded = False\<rparr> [True]])
           \<lparr>trace := [EmitCheckMemory True, LogWarn, EmitCheckMemory True, LogWarn]\<rparr>
   \<and> guarded (trace (run (Network (Some (Finite 2)))
         [Add \<lparr>url = ''a'', loaded = False\<rparr> [True],
          Add \<lparr>url = ''b'', loaded = False\<rparr> [False, True],
          Add \<lparr>url = ''c'', loaded = False\<rparr> []]))
   \<and> trace (run (Network (Some (Finite 2)))
         [Add \<lparr>url = ''a'', loaded = False\<rparr> [True],
          Add \<lparr>url = ''b'', loaded = False\<rparr> [False, True],
          Add \<lparr>url = ''c'', loaded = False\<rparr> []])
       = [EmitCheckMemory True, LogWarn, EmitCheckMemory False, LoaderLoad 0,
          EmitCheckMemory True, LogWarn, EmitCheckMemory False, LoaderLoad 1]"
proof -
  have a: "\<not> jsGe (mapSize (processes (run (Network (Some (Finite 2))) [Add \<lparr>url = ''a'', loaded = False\<rparr> [True]])))
       (maxProcesses (run (Network (Some (Finite 2))) [Add \<lparr>url = ''a'', loaded = False\<rparr> [True]]))"
    by code_simp
  have b: "imageQueue (run (Network (Some (Finite 2))) [Add \<lparr>url = ''a'', loaded = False\<rparr> [True]])
       = [(''a'', \<lparr>url = ''a'', loaded = False\<rparr>)]"
    by code_simp
  have c: "trace (run (Network (Some (Finite 2))) [Add \<lparr>url = ''a'', loaded = False\<rparr> [True]])
       = [EmitCheckMemory True, LogWarn]"
    by code_simp
  have d: "trace (run (Network (Some (Finite 2)))
         [Add \<lparr>url = ''a'', loaded = False\<rparr> [True],
          Add \<lparr>url = ''b'', loaded = False\<rparr> [False, True],
          Add \<lparr>url = ''c'', loaded = False\<rparr> []])
       = [EmitCheckMemory True, LogWarn, EmitCheckMemory False, LoaderLoad 0,
          EmitCheckMemory True, LogWarn, EmitCheckMemory False, LoaderLoad 1]"
    by code_simp
  show ?thesis
    using no_loader_started_on_overflow
      [of "run (Network (Some (Finite 2))) [Add \<lparr>url = ''a'', loaded = False\<rparr> [True]]" "[]"
          "''a''" "\<lparr>url = ''a'', loaded = False\<rparr>" "[]" "Some (Finite 2)"
          "[Add \<lparr>url = ''a'', loaded = False\<rparr> [True],
            Add \<lparr>url = ''b'', loaded = False\<rparr> [False, True],
            Add \<lparr>url = ''c'', loaded = False\<rparr> []]"]
      a b c d
    by simp
qed

subsection \<open>The order of effects on \<open>load\<close>\<close>

lemma trace_update_loop:
  "\<exists>t. trace (update_loop rs entries n) = trace n @ t \<and> list_all dispatchEffect t"
proof (induction entries arbitrary: rs n)
  case Nil
  then show ?case by simp
next
  case (Cons e entries)
  obtain u img where e: "e = (u, img)" by (cases e)
  from Cons.IH [of "tl rs" "dispatched u img n"] obtain t where
    t: "trace (update_loop (tl rs) entries (dispatched u img n))
          = trace (dispatched u img n) @ t" "list_all dispatchEffect t"
    by blast
  have "trace (update_loop (tl rs) entries (dispatched u img n))
          = trace n @ ([EmitCheckMemory False, LoaderLoad (created n)] @ t)
        \<and> list_all dispatchEffect ([EmitCheckMemory False, LoaderLoad (created n)] @ t)"
    using t by (simp add: dispatched_def)
  then have "\<exists>t'. trace (update_loop (tl rs) entries (dispatched u img n)) = trace n @ t'
        \<and> list_all dispatchEffect t'"
    by blast
  moreover have "\<exists>t'. trace n @ [EmitCheckMemory True, LogWarn] = trace n @ t'
        \<and> list_all dispatchEffect t'"
    by simp
  moreover have "\<exists>t'. trace n = trace n @ t' \<and> list_all dispatchEffect t'"
    by simp
  ultimately show ?case
    unfolding e update_loop_Cons by simp
qed

lemma trace_update:
  "\<exists>t. trace (update rs n) = trace n @ t \<and> list_all dispatchEffect t"
proof (cases "jsGe (mapSize (processes n)) (maxProcesses n)")
  case True
  then show ?thesis by (simp add: update_def)
next
  case False
  with trace_update_loop [of rs "imageQueue n" n] show ?thesis by (simp add: update_def)
qed

lemma counters_update_loop:
  "loadedCount (update_loop rs entries n) = loadedCount n
   \<and> erroredCount (update_loop rs entries n) = erroredCount n
   \<and> canceledCount (update_loop rs entries n) = canceledCount n"
proof (induction entries arbitrary: rs n)
  case Nil
  then show ?case by simp
next
  case (Cons e entries)
  obtain u img where e: "e = (u, img)" by (cases e)
  from Cons.IH [of "tl rs" "dispatched u img n"] show ?case
    unfolding e update_loop_Cons by (simp add: dispatched_def)
qed

lemma counters_update:
  "loadedCount (update rs n) = loadedCount n
   \<and> erroredCount (update rs n) = erroredCount n
   \<and> canceledCount (update rs n) = canceledCount n"
  by (simp add: update_def counters_update_loop)

text \<open>
  Claim C9. When a loader with attached listeners emits \<open>load\<close>, the Network counts it,
  detaches the listeners, deletes the URL from \<open>processes\<close> and runs a dispatch cycle;
  only then does it call \<open>image.assignBlob\<close> and emit its own \<open>load\<close>. The effects of
  that dispatch cycle (possibly a \<open>loader.load()\<close> for the next queued image) lie in the
  trace between \<open>removeAllListeners\<close> and \<open>assignBlob\<close>.
\<close>

theorem load_redispatches_before_assignBlob:
  assumes "map_of (attached n) l = Some img"
  shows "let n0 = n\<lparr> loadedCount := loadedCount n + 1,
                     attached := AList.delete l (attached n),
                     processes := AList.delete (url img) (processes n),
                     trace := trace n @ [LoaderRemoveAllListeners l] \<rparr>;
             n1 = update rs n0
         in fire l Load rs n
              = n1\<lparr>trace := trace n1 @ [ImageAssignBlob (url img) l, EmitLoad (url img)]\<rparr>
            \<and> (\<exists>t. trace n1 = trace n @ LoaderRemoveAllListeners l # t
                    \<and> list_all dispatchEffect t)"
proof -
  define n0 where "n0 = n\<lparr> loadedCount := loadedCount n + 1,
                     attached := AList.delete l (attached n),
                     processes := AList.delete (url img) (processes n),
                     trace := trace n @ [LoaderRemoveAllListeners l] \<rparr>"
  have "fire l Load rs n
      = (update rs n0)\<lparr>trace := trace (update rs n0)
                          @ [ImageAssignBlob (url img) l, EmitLoad (url img)]\<rparr>"
    using assms by (simp add: fire_def onDone_def Let_def n0_def)
  moreover from trace_update [of rs n0]
  have "\<exists>t. trace (update rs n0) = trace n @ LoaderRemoveAllListeners l # t
            \<and> list_all dispatchEffect t"
    by (simp add: n0_def)
  ultimately show ?thesis
    unfolding Let_def n0_def by simp
qed

text \<open>
  One loader, two images: when \<open>a\<close> is loaded, the loader for \<open>b\<close> is started before
  \<open>a\<close> receives its blob, and \<open>b\<close> is in flight when \<open>load\<close> is emitted.
\<close>

theorem load_redispatches_before_assignBlob_witness:
  "map_of (attached (run (Network (Some (Finite 1)))
       [Add \<lparr>url = ''a'', loaded = False\<rparr> [], Add \<lparr>url = ''b'', loaded = False\<rparr> []])) 0
     = Some \<lparr>url = ''a'', loaded = False\<rparr>
   \<and> trace (fire 0 Load [] (run (Network (Some (Finite 1)))
       [Add \<lparr>url = ''a'', loaded = False\<rparr> [], Add \<lparr>url = ''b'', loaded = False\<rparr> []]))
     = [EmitCheckMemory False, LoaderLoad 0, LoaderRemoveAllListeners 0,
        EmitCheckMemory False, LoaderLoad 1, ImageAssignBlob ''a'' 0, EmitLoad ''a'']
   \<and> map fst (processes (fire 0 Load [] (run (Network (Some (Finite 1)))
       [Add \<lparr>url = ''a'', loaded = False\<rparr> [], Add \<lparr>url = ''b'', loaded = False\<rparr> []])))
     = [''b'']"
proof -
  have a: "map_of (attached (run (Network (Some (Finite 1)))
       [Add \<lparr>url = ''a'', loaded = False\<rparr> [], Add \<lparr>url = ''b'', loaded = False\<rparr> []])) 0
     = Some \<lparr>url = ''a'', loaded = False\<rparr>"
    by code_simp
  have "update []
          ((run (Network (Some (Finite 1)))
             [Add \<lparr>url = ''a'', loaded = False\<rparr> [], Add \<lparr>url = ''b'', loaded = False\<rparr> []])
           \<lparr> loadedCount := loadedCount (run (Network (Some (Finite 1)))
                [Add \<lparr>url = ''a'', loaded = False\<rparr> [], Add \<lparr>url = ''b'', loaded = False\<rparr> []]) + 1,
             attached := AList.delete 0 (attached (run (Network (Some (Finite 1)))
                [Add \<lparr>url = ''a'', loaded = False\<rparr> [], Add \<lparr>url = ''b'', loaded = False\<rparr> []])),
             processes := AList.delete (url \<lparr>url = ''a'', loaded = False\<rparr>) (processes (run (Network (Some (Finite 1)))
                [Add \<lparr>url = ''a'', loaded = False\<rparr> [], Add \<lparr>url = ''b'', loaded = False\<rparr> []])),
             trace := trace (run (Network (Some (Finite 1)))
                [Add \<lparr>url = ''a'', loaded = False\<rparr> [], Add \<lparr>url = ''b'', loaded = False\<rparr> []])
                @ [LoaderRemoveAllListeners 0] \<rparr>)
        = \<lparr> processes = [(''b'', \<lparr>url = ''b'', loaded = False\<rparr>, 1)], imageQueue = [],
            maxProcesses = Finite 1, loadedCount = 1, canceledCount = 0, erroredCount = 0,
            attached = [(1, \<lparr>url = ''b'', loaded = False\<rparr>)], created = 2,
            trace = [EmitCheckMemory False, LoaderLoad 0, LoaderRemoveAllListeners 0,
                     EmitCheckMemory False, LoaderLoad 1] \<rparr>"
    by code_simp
  with load_redispatches_before_assignBlob [OF a, of "[]"] show ?thesis
    using a by (simp add: Let_def)
qed

subsection \<open>Terminal events and the image\<close>

text \<open>
  What the handlers of the terminal events do in general: \<open>error\<close> and \<open>timeout\<close>
  increment \<open>erroredCount\<close>, \<open>abort\<close> changes no counter, \<open>error\<close> calls
  \<open>image.onLoadError()\<close>, and after \<open>timeout\<close> the trace grows by
  \<open>removeAllListeners\<close> and the effects of a dispatch cycle only.
\<close>

lemma fire_terminal_counters:
  assumes "map_of (attached n) l = Some img"
  shows "erroredCount (fire l Error rs n) = erroredCount n + 1"
    and "erroredCount (fire l Timeout rs n) = erroredCount n + 1"
    and "erroredCount (fire l Abort rs n) = erroredCount n"
    and "loadedCount (fire l Abort rs n) = loadedCount n"
    and "canceledCount (fire l Abort rs n) = canceledCount n"
  using assms by (simp_all add: fire_def onDone_def counters_update)

lemma fire_error_notifies:
  assumes "map_of (attached n) l = Some img"
  shows "ImageOnLoadError (url img) \<in> set (trace (fire l Error rs n))"
proof -
  define n0 where "n0 = n\<lparr> erroredCount := erroredCount n + 1,
      trace := trace n @ [ImageOnLoadError (url img)],
      attached := AList.delete l (attached n),
      processes := AList.delete (url img) (processes n),
      trace := trace n @ [ImageOnLoadError (url img), LoaderRemoveAllListeners l] \<rparr>"
  from trace_update [of rs n0] obtain t where "trace (update rs n0) = trace n0 @ t"
    by blast
  moreover have "fire l Error rs n = update rs n0"
    using assms by (simp add: fire_def onDone_def n0_def)
  ultimately show ?thesis by (simp add: n0_def)
qed

lemma fire_timeout_silent:
  assumes "map_of (attached n) l = Some img"
  shows "\<exists>t. trace (fire l Timeout rs n) = trace n @ LoaderRemoveAllListeners l # t
             \<and> list_all dispatchEffect t"
proof -
  define n0 where "n0 = n\<lparr> erroredCount := erroredCount n + 1,
      attached := AList.delete l (attached n),
      processes := AList.delete (url img) (processes n),
      trace := trace n @ [LoaderRemoveAllListeners l] \<rparr>"
  have "fire l Timeout rs n = update rs n0"
    using assms by (simp add: fire_def onDone_def n0_def)
  with trace_update [of rs n0] show ?thesis by (simp add: n0_def)
qed

text \<open>
  Claim C2. On \<open>timeout\<close> the Network increments \<open>erroredCount\<close> but calls no method of
  the image: the trace of a timed-out load holds no \<open>image.onLoadError()\<close>, where the
  trace of a failed load (\<open>error\<close>) does.
\<close>

theorem timeout_leaves_image_unnotified:
  "erroredCount (run (Network None) [Add \<lparr>url = ''a'', loaded = False\<rparr> [], Fire 0 Timeout []]) = 1
   \<and> ImageOnLoadError ''a''
       \<notin> set (trace (run (Network None) [Add \<lparr>url = ''a'', loaded = False\<rparr> [], Fire 0 Timeout []]))
   \<and> trace (run (Network None) [Add \<lparr>url = ''a'', loaded = False\<rparr> [], Fire 0 Timeout []])
       = [EmitCheckMemory False, LoaderLoad 0, LoaderRemoveAllListeners 0]
   \<and> trace (run (Network None) [Add \<lparr>url = ''a'', loaded = False\<rparr> [], Fire 0 Error []])
       = [EmitCheckMemory False, LoaderLoad 0, ImageOnLoadError ''a'', LoaderRemoveAllListeners 0]"
  by code_simp


section \<open>Properties of Img\<close>

subsection \<open>What \<open>clear\<close> and \<open>unregisterRequest\<close> change\<close>

lemma emit_fields [simp]:
  "bytes (emit ev s) = bytes s" "blob (emit ev s) = blob s" "element (emit ev s) = element s"
  "renderRequests (emit ev s) = renderRequests s" "gotSize (emit ev s) = gotSize s"
  "decoded (emit ev s) = decoded s" "bytesUncompressed (emit ev s) = bytesUncompressed s"
  "listeners (emit ev s) = listeners s" "subscribed (emit ev s) = subscribed s"
  "objectURLs (emit ev s) = objectURLs s"
  by (simp_all add: emit_def)

lemma unregisterRequest_fields [simp]:
  "bytes (unregisterRequest r s) = bytes s" "blob (unregisterRequest r s) = blob s"
  "element (unregisterRequest r s) = element s" "gotSize (unregisterRequest r s) = gotSize s"
  "decoded (unregisterRequest r s) = decoded s"
  "bytesUncompressed (unregisterRequest r s) = bytesUncompressed s"
  "listeners (unregisterRequest r s) = listeners s"
  "objectURLs (unregisterRequest r s) = objectURLs s"
  "renderRequests (unregisterRequest r s) = removeAll r (renderRequests s)"
  "subscribed (unregisterRequest r s) = remove1 r (subscribed s)"
  by (simp_all add: unregisterRequest_def)

lemma unregisterAll_fields:
  "bytes (foldl (\<lambda>s r. unregisterRequest r s) s rs) = bytes s
   \<and> blob (foldl (\<lambda>s r. unregisterRequest r s) s rs) = blob s
   \<and> element (foldl (\<lambda>s r. unregisterRequest r s) s rs) = element s
   \<and> gotSize (foldl (\<lambda>s r. unregisterRequest r s) s rs) = gotSize s
   \<and> decoded (foldl (\<lambda>s r. unregisterRequest r s) s rs) = decoded s
   \<and> bytesUncompressed (foldl (\<lambda>s r. unregisterRequest r s) s rs) = bytesUncompressed s
   \<and> listeners (foldl (\<lambda>s r. unregisterRequest r s) s rs) = listeners s
   \<and> objectURLs (foldl (\<lambda>s r. unregisterRequest r s) s rs) = objectURLs s"
  by (induction rs arbitrary: s) simp_all

lemma unregisterAll_renderRequests:
  "renderRequests (foldl (\<lambda>s r. unregisterRequest r s) s rs)
     = filter (\<lambda>r. r \<notin> set rs) (renderRequests s)"
proof (induction rs arbitrary: s)
  case Nil
  then show ?case by simp
next
  case (Cons r rs)
  have "(\<lambda>x. r \<noteq> x \<and> x \<notin> set rs) = (\<lambda>x. x \<noteq> r \<and> x \<notin> set rs)"
    by auto
  then show ?case
    by (simp add: Cons.IH removeAll_filter_not_eq)
qed

lemma clear_fields:
  "bytes (clear s) = bytes s" "blob (clear s) = blob s" "decoded (clear s) = decoded s"
  "gotSize (clear s) = False" "bytesUncompressed (clear s) = 0" "listeners (clear s) = []"
  "element (clear s) = (element s)\<lparr>onload := None, onerror := None, src := []\<rparr>"
  "objectURLs (clear s) = removeAll [] (objectURLs s)"
  "renderRequests (clear s) = []"
  by (simp_all add: clear_def Let_def removeAllListeners_def revokeObjectURL_def
        unregisterAll_fields unregisterAll_renderRequests)


lemma clear_emits_clear:
  assumes "(''clear'', Consumer c) \<in> set (listeners s)"
  shows "(c, ClearEvent) \<in> set (delivered (clear s))"
proof -
  define s4 where "s4 = foldl (\<lambda>s r. unregisterRequest r s)
      (revokeObjectURL []
         (s\<lparr> element := (element s)\<lparr>onload := None, onerror := None, src := []\<rparr>,
             gotSize := False, bytesUncompressed := 0 \<rparr>))
      (renderRequests s)"
  have "listeners s4 = listeners s"
    by (simp add: s4_def unregisterAll_fields revokeObjectURL_def)
  with assms have "(c, ClearEvent) \<in> set (delivered (emit ClearEvent s4))"
    by (force simp: emit_def)
  moreover have "delivered (clear s) = delivered (emit ClearEvent s4)"
    by (simp add: clear_def Let_def removeAllListeners_def revokeObjectURL_def s4_def)
  ultimately show ?thesis by simp
qed

subsection \<open>Byte accounting\<close>

text \<open>
  Claim C8. \<open>getBytesRam()\<close> is \<open>bytes + bytesUncompressed\<close> when \<open>decoded\<close> holds and
  \<open>bytes\<close> otherwise; \<open>getBytesVideo(size)\<close> is \<open>size.width * size.height * 4\<close>.
\<close>

theorem getBytes_as_specified:
  "getBytesRam s = (if decoded s then bytes s + bytesUncompressed s else bytes s)
   \<and> getBytesVideo sz = width sz * height sz * 4"
  by (simp add: getBytesRam_def getBytesVideo_def)

subsection \<open>\<open>clear\<close> and the blob URL\<close>

text \<open>
  Claim C6. After \<open>loadend\<close> the element holds the blob URL \<open>blob:1\<close>. \<open>clear()\<close> then
  empties \<open>element.src\<close> first and revokes what the element holds afterwards, the empty
  string: the blob URL is still live after \<open>clear()\<close>.
\<close>

theorem clear_leaves_blob_url_unrevoked:
  "src (element (imgRun newImg [LoaderDone 1 1000, LoadEnd ''blob:1'', ElementLoad 10 10]))
     = ''blob:1''
   \<and> objectURLs (imgRun newImg [LoaderDone 1 1000, LoadEnd ''blob:1'', ElementLoad 10 10])
     = [''blob:1'']
   \<and> objectURLs (clear (imgRun newImg [LoaderDone 1 1000, LoadEnd ''blob:1'', ElementLoad 10 10]))
     = [''blob:1'']
   \<and> src (element (clear (imgRun newImg
        [LoaderDone 1 1000, LoadEnd ''blob:1'', ElementLoad 10 10]))) = []"
  by code_simp

subsection \<open>\<open>clear\<close> twice\<close>

lemma clear_fixed:
  assumes "onload (element s) = None" "onerror (element s) = None" "src (element s) = []"
    "\<not> gotSize s" "bytesUncompressed s = 0" "[] \<notin> set (objectURLs s)"
    "renderRequests s = []" "listeners s = []"
  shows "clear s = s"
  using assms
  by (simp add: clear_def Let_def removeAllListeners_def revokeObjectURL_def emit_def)

text \<open>
  Claim C7. A second \<open>clear()\<close> changes nothing: the fields of the \<open>Img\<close>, its
  listeners, the live blob URLs, the subscriptions on requests and the events delivered to
  consumers are the same after two calls as after one.
\<close>

theorem clear_idempotent: "clear (clear s) = clear s"
  by (rule clear_fixed) (simp_all add: clear_fields)

text \<open>A sized and rendered image with a \<open>clear\<close> listener, cleared twice.\<close>

theorem clear_idempotent_witness:
  "clear (clear (imgRun newImg
      [On ''clear'' 7, LoaderDone 1 1000, LoadEnd ''blob:1'', ElementLoad 10 10,
       RegisterRequest 3, Rendered 3]))
   = \<lparr> bytes = 1000, blob = Some 1,
       element = \<lparr> width = 10, height = 10, onload = None, onerror = None, src = [] \<rparr>,
       renderRequests = [], gotSize = False, decoded = True, bytesUncompressed = 0,
       listeners = [], subscribed = [], objectURLs = [''blob:1''],
       delivered = [(7, ClearEvent)] \<rparr>"
proof -
  have "clear (imgRun newImg
      [On ''clear'' 7, LoaderDone 1 1000, LoadEnd ''blob:1'', ElementLoad 10 10,
       RegisterRequest 3, Rendered 3])
   = \<lparr> bytes = 1000, blob = Some 1,
       element = \<lparr> width = 10, height = 10, onload = None, onerror = None, src = [] \<rparr>,
       renderRequests = [], gotSize = False, decoded = True, bytesUncompressed = 0,
       listeners = [], subscribed = [], objectURLs = [''blob:1''],
       delivered = [(7, ClearEvent)] \<rparr>"
    by code_simp
  then show ?thesis
    using clear_idempotent [of "imgRun newImg
      [On ''clear'' 7, LoaderDone 1 1000, LoadEnd ''blob:1'', ElementLoad 10 10,
       RegisterRequest 3, Rendered 3]"]
    by simp
qed

subsection \<open>What \<open>clear\<close> keeps\<close>

text \<open>
  Claim C10. \<open>clear()\<close> leaves \<open>bytes\<close> and \<open>decoded\<close> as they were, and
  \<open>getBytesRam()\<close> after \<open>clear()\<close> is \<open>bytes\<close>, the compressed size, also for an
  image whose \<open>decoded\<close> flag is set.
\<close>

theorem clear_keeps_bytes_and_decoded:
  "bytes (clear s) = bytes s \<and> decoded (clear s) = decoded s \<and> getBytesRam (clear s) = bytes s"
  by (simp add: getBytesRam_def clear_fields)

text \<open>A decoded image of 1000 bytes and 10 x 10 pixels: 1400 before \<open>clear()\<close>, 1000 after.\<close>

theorem clear_keeps_bytes_and_decoded_witness:
  "decoded (imgRun newImg
      [LoaderDone 1 1000, LoadEnd ''blob:1'', ElementLoad 10 10, RegisterRequest 3, Rendered 3])
   \<and> getBytesRam (imgRun newImg
      [LoaderDone 1 1000, LoadEnd ''blob:1'', ElementLoad 10 10, RegisterRequest 3, Rendered 3])
     = 1400
   \<and> getBytesRam (clear (imgRun newImg
      [LoaderDone 1 1000, LoadEnd ''blob:1'', ElementLoad 10 10, RegisterRequest 3, Rendered 3]))
     = 1000
   \<and> decoded (clear (imgRun newImg
      [LoaderDone 1 1000, LoadEnd ''blob:1'', ElementLoad 10 10, RegisterRequest 3, Rendered 3]))"
proof -
  have a: "decoded (imgRun newImg
      [LoaderDone 1 1000, LoadEnd ''blob:1'', ElementLoad 10 10, RegisterRequest 3, Rendered 3])"
    by code_simp
  have b: "getBytesRam (imgRun newImg
      [LoaderDone 1 1000, LoadEnd ''blob:1'', ElementLoad 10 10, RegisterRequest 3, Rendered 3])
     = 1400"
    by code_simp
  have c: "bytes (imgRun newImg
      [LoaderDone 1 1000, LoadEnd ''blob:1'', ElementLoad 10 10, RegisterRequest 3, Rendered 3])
     = 1000"
    by code_simp
  show ?thesis
    using clear_keeps_bytes_and_decoded [of "imgRun newImg
      [LoaderDone 1 1000, LoadEnd ''blob:1'', ElementLoad 10 10, RegisterRequest 3, Rendered 3]"]
      a b c
    by simp
qed

subsection \<open>\<open>bytesUncompressed\<close> and \<open>decoded\<close>\<close>

text \<open>
  The equivalence \<open>bytesUncompressed > 0 \<longleftrightarrow> decoded\<close> fails once the element has
  reported the size of a blob that no request has rendered: \<open>bytesUncompressed\<close> is 400
  and \<open>decoded\<close> is false.
\<close>

theorem bytesUncompressed_without_decoded:
  "\<not> (0 < bytesUncompressed (imgRun newImg
            [LoaderDone 1 1000, LoadEnd ''blob:1'', ElementLoad 10 10])
       \<longleftrightarrow> decoded (imgRun newImg
            [LoaderDone 1 1000, LoadEnd ''blob:1'', ElementLoad 10 10]))"
  by code_simp

lemma sized_step:
  assumes "0 < bytesUncompressed s \<longrightarrow> gotSize s"
  shows "0 < bytesUncompressed (imgStep s op) \<longrightarrow> gotSize (imgStep s op)"
proof (cases op)
  case (LoadEnd u)
  with assms show ?thesis by (simp add: onLoadEnd_def)
next
  case (ElementLoad w h)
  with assms show ?thesis
    by (simp add: Let_def runHandler_def onBlobAssigned_def onBlobError_def
             split: option.splits elementHandler.splits)
next
  case ElementError
  with assms show ?thesis
    by (simp add: Let_def runHandler_def onBlobAssigned_def onBlobError_def
             split: option.splits elementHandler.splits)
next
  case Clear
  then show ?thesis by (simp add: clear_fields)
qed (use assms in \<open>simp_all add: onRendered_def registerRequest_def\<close>)

lemma sized_run:
  "0 < bytesUncompressed s \<longrightarrow> gotSize s \<Longrightarrow>
   0 < bytesUncompressed (imgRun s ops) \<longrightarrow> gotSize (imgRun s ops)"
  unfolding imgRun_def
proof (induction ops arbitrary: s)
  case Nil
  then show ?case by simp
next
  case (Cons op ops)
  from Cons.IH [OF sized_step [OF Cons.prems, of op]] show ?case by simp
qed

text \<open>
  Claim C5, as the code has it. In every state of an \<open>Img\<close> reachable from the
  constructor, \<open>bytesUncompressed > 0\<close> implies \<open>gotSize\<close>. \<open>#onBlobAssigned\<close> sets
  \<open>bytesUncompressed\<close> to width * height * 4 and keeps \<open>decoded\<close>; \<open>#onRendered\<close>
  sets \<open>decoded\<close> and keeps \<open>bytesUncompressed\<close>; \<open>clear\<close> resets
  \<open>bytesUncompressed\<close> to 0. \<open>getBytesRam()\<close> exceeds \<open>bytes\<close> exactly when
  \<open>decoded\<close> holds and \<open>bytesUncompressed > 0\<close>.
\<close>

theorem bytesUncompressed_needs_gotSize:
  "(0 < bytesUncompressed (imgRun newImg ops) \<longrightarrow> gotSize (imgRun newImg ops))
   \<and> bytesUncompressed (onBlobAssigned s) = width (element s) * height (element s) * 4
   \<and> decoded (onBlobAssigned s) = decoded s
   \<and> decoded (onRendered r s) \<and> bytesUncompressed (onRendered r s) = bytesUncompressed s
   \<and> bytesUncompressed (clear s) = 0
   \<and> (bytes s < getBytesRam s \<longleftrightarrow> decoded s \<and> 0 < bytesUncompressed s)"
proof (intro conjI)
  show "0 < bytesUncompressed (imgRun newImg ops) \<longrightarrow> gotSize (imgRun newImg ops)"
    by (rule sized_run) (simp add: newImg_def)
qed (auto simp: onBlobAssigned_def onRendered_def clear_fields getBytesVideo_def
       getBytesRam_def Let_def)

theorem bytesUncompressed_needs_gotSize_witness:
  "0 < bytesUncompressed (imgRun newImg
          [LoaderDone 1 1000, LoadEnd ''blob:1'', ElementLoad 10 10])
   \<and> gotSize (imgRun newImg [LoaderDone 1 1000, LoadEnd ''blob:1'', ElementLoad 10 10])
   \<and> \<not> decoded (imgRun newImg [LoaderDone 1 1000, LoadEnd ''blob:1'', ElementLoad 10 10])"
proof -
  have a: "0 < bytesUncompressed (imgRun newImg
          [LoaderDone 1 1000, LoadEnd ''blob:1'', ElementLoad 10 10])"
    by code_simp
  have b: "\<not> decoded (imgRun newImg [LoaderDone 1 1000, LoadEnd ''blob:1'', ElementLoad 10 10])"
    by code_simp
  show ?thesis
    using bytesUncompressed_needs_gotSize
      [of "[LoaderDone 1 1000, LoadEnd ''blob:1'', ElementLoad 10 10]"] a b
    by simp
qed


end
